theory Spec2Isabelle
  imports Complex_Main
begin

section \<open>CloudMart tagging dashboard: ingestion, filtering, aggregation, remediation\<close>

text \<open>
  A shallow embedding of \<^verbatim>\<open>cloudmart_tagging_app.py\<close>. The script is a Streamlit page; the
  parts modelled are \<^verbatim>\<open>load_data\<close> (lines 28-101), the filter block (lines 168-184),
  the aggregations of task sets 1 and 2 (lines 249-254, 284-310, 325-355), the remediation
  editor and its apply handler (lines 633-703) and the export (lines 733-744).

  Python strings are modelled as \<open>string\<close>; a character is a code point below 256.
  Every raise of the source is a value \<open>Inl e\<close> of a sum type. Costs are real numbers
  (the source holds them in 64-bit floats).
\<close>

subsection \<open>Python string and list primitives\<close>

datatype error = IndexError | ValueError | AttributeError | KeyError | ZeroDivisionError

text \<open>The code points below 256 for which \<^verbatim>\<open>str.isspace\<close> holds; \<^verbatim>\<open>str.strip()\<close> removes them
  from both ends.\<close>

definition is_space :: "char \<Rightarrow> bool" where
  "is_space c = (of_char c \<in> {9, 10, 11, 12, 13, 28, 29, 30, 31, 32, 133, 160 :: nat})"

definition lstrip :: "string \<Rightarrow> string" where
  "lstrip s = dropWhile is_space s"

definition rstrip :: "string \<Rightarrow> string" where
  "rstrip s = rev (dropWhile is_space (rev s))"

definition strip :: "string \<Rightarrow> string" where
  "strip s = rstrip (lstrip s)"

text \<open>\<^verbatim>\<open>s.split(sep)\<close> for a one-character separator: every occurrence splits, and the result
  is never empty (\<^verbatim>\<open>''.split(',') == ['']\<close>).\<close>

fun split_on :: "char \<Rightarrow> string \<Rightarrow> string list" where
  "split_on sep [] = [[]]"
| "split_on sep (c # cs) =
     (if c = sep then [] # split_on sep cs
      else (case split_on sep cs of
              [] \<Rightarrow> [[c]]
            | w # ws \<Rightarrow> (c # w) # ws))"

text \<open>\<^verbatim>\<open>xs[:k]\<close> and \<^verbatim>\<open>xs[k:]\<close>: a negative bound counts from the end, and every bound is
  clamped to the list.\<close>

definition slice_bound :: "'a list \<Rightarrow> int \<Rightarrow> nat" where
  "slice_bound xs k =
     (let n = int (length xs) in
      if k < 0 then nat (max 0 (n + k)) else nat (min k n))"

definition slice_to :: "'a list \<Rightarrow> int \<Rightarrow> 'a list" where
  "slice_to xs k = take (slice_bound xs k) xs"

definition slice_from :: "'a list \<Rightarrow> int \<Rightarrow> 'a list" where
  "slice_from xs k = drop (slice_bound xs k) xs"

text \<open>Lines 42-43 and 55-56: \<^verbatim>\<open>if line.startswith('"') and line.endswith('"'): line = line[1:-1]\<close>.
  For the one-character line \<^verbatim>\<open>"\<close> both tests hold and the slice is empty.\<close>

definition unquote :: "string \<Rightarrow> string" where
  "unquote line =
     (if line \<noteq> [] \<and> hd line = CHR 0x22 \<and> last line = CHR 0x22
      then butlast (tl line) else line)"

subsection \<open>The row repair of \<^verbatim>\<open>load_data\<close> (lines 51-77)\<close>

definition line_fields :: "string \<Rightarrow> string list" where
  "line_fields line = split_on CHR '','' (unquote (strip line))"

definition repair_row :: "nat \<Rightarrow> string list \<Rightarrow> string list" where
  "repair_row expected_cols fields =
     (if length fields < expected_cols then
        (let missing_count = expected_cols - length fields;
             first_part = slice_to fields (- 3);
             last_three = slice_from fields (- 3);
             padding = replicate missing_count []
         in first_part @ padding @ last_three)
      else if length fields > expected_cols then slice_to fields (int expected_cols)
      else fields)"

definition parse_line :: "nat \<Rightarrow> string \<Rightarrow> string list" where
  "parse_line expected_cols line = repair_row expected_cols (line_fields line)"

definition parse_header :: "string \<Rightarrow> string list" where
  "parse_header line = map strip (split_on CHR '','' (unquote (strip line)))"

text \<open>Lines 38-77: the header names and the repaired data rows. \<^verbatim>\<open>lines[0]\<close> raises
  IndexError on an empty list.\<close>

definition parse_content :: "string \<Rightarrow> error + string list \<times> string list list" where
  "parse_content content =
     (case split_on CHR ''\<newline>'' (strip content) of
        [] \<Rightarrow> Inl IndexError
      | header_line # data_lines \<Rightarrow>
          (let headers = parse_header header_line;
               expected_cols = length headers
           in Inr (headers, map (parse_line expected_cols) data_lines)))"

subsection \<open>Tables\<close>

text \<open>A cell of a loaded frame is a string, a number (only in \<^verbatim>\<open>MonthlyCostUSD\<close>) or the
  missing marker (\<^verbatim>\<open>pd.NA\<close>, \<^verbatim>\<open>NaN\<close>, \<^verbatim>\<open>None\<close>). A row is the Series that \<^verbatim>\<open>iterrows\<close>
  yields: a map from column label to cell. A frame is its column labels and its rows, each
  with its index label.\<close>

datatype cell = Missing | Str string | Num real

type_synonym row = "string \<Rightarrow> cell option"

record table =
  cols :: "string list"
  rows :: "(nat \<times> row) list"

definition map_cells :: "(cell \<Rightarrow> cell) \<Rightarrow> table \<Rightarrow> table" where
  "map_cells f t = t\<lparr>rows := map (\<lambda>(i, r). (i, map_option f \<circ> r)) (rows t)\<rparr>"

definition map_column :: "string \<Rightarrow> (cell \<Rightarrow> cell) \<Rightarrow> table \<Rightarrow> table" where
  "map_column c f t = t\<lparr>rows := map (\<lambda>(i, r). (i, r(c := map_option f (r c)))) (rows t)\<rparr>"

text \<open>\<^verbatim>\<open>pd.DataFrame(data_rows, columns=headers)\<close> on a list of lists: the rows are padded
  with None to the longest one, and ValueError is raised when that length is not the number
  of columns. The index is \<^verbatim>\<open>0 .. len(data_rows) - 1\<close>.\<close>

definition DataFrame :: "string list list \<Rightarrow> string list \<Rightarrow> error + table" where
  "DataFrame data columns =
     (if data \<noteq> [] \<and> foldr max (map length data) 0 \<noteq> length columns then Inl ValueError
      else Inr \<lparr>cols = columns,
                rows = zip [0 ..< length data]
                  (map (\<lambda>fields. map_of (zip columns
                          (map Str fields @ replicate (length columns - length fields) Missing)))
                     data)\<rparr>)"

text \<open>Lines 83-92. \<^verbatim>\<open>.str.strip()\<close> turns a non-string into NaN; \<^verbatim>\<open>replace('', pd.NA)\<close>;
  \<^verbatim>\<open>pd.to_numeric(errors='coerce')\<close>, whose reading of a string is the parameter \<open>to_num\<close>.\<close>

fun str_strip :: "cell \<Rightarrow> cell" where
  "str_strip (Str s) = Str (strip s)"
| "str_strip _ = Missing"

fun replace_empty :: "cell \<Rightarrow> cell" where
  "replace_empty (Str s) = (if s = [] then Missing else Str s)"
| "replace_empty c = c"

fun to_numeric :: "(string \<Rightarrow> real option) \<Rightarrow> cell \<Rightarrow> cell" where
  "to_numeric to_num (Str s) = (case to_num s of None \<Rightarrow> Missing | Some x \<Rightarrow> Num x)"
| "to_numeric to_num c = c"

text \<open>\<^verbatim>\<open>load_data\<close>. With a repeated header name \<^verbatim>\<open>df[col]\<close> is a frame, and \<^verbatim>\<open>.dtype\<close> on it
  raises AttributeError. Every exception is caught at line 96 and the function returns
  None: that is the value \<open>Inl e\<close>.\<close>

definition load_data :: "(string \<Rightarrow> real option) \<Rightarrow> string \<Rightarrow> error + table" where
  "load_data to_num content =
     (case parse_content content of
        Inl e \<Rightarrow> Inl e
      | Inr (headers, data_rows) \<Rightarrow>
          (case DataFrame data_rows headers of
             Inl e \<Rightarrow> Inl e
           | Inr df \<Rightarrow>
               if \<not> distinct (cols df) then Inl AttributeError
               else
                 (let df1 = map_cells str_strip df;
                      df2 = map_cells replace_empty df1;
                      df3 = (if ''MonthlyCostUSD'' \<in> set (cols df2)
                             then map_column ''MonthlyCostUSD'' (to_numeric to_num) df2
                             else df2)
                  in Inr df3)))"

text \<open>A reading of the plain decimal literals \<^verbatim>\<open>12\<close>, \<^verbatim>\<open>-3.50\<close>, \<^verbatim>\<open>7.\<close>; on them it is what
  \<^verbatim>\<open>pd.to_numeric\<close> returns. It instantiates \<open>to_num\<close> in the examples only.\<close>

definition digit_of :: "char \<Rightarrow> nat option" where
  "digit_of c =
     (let k = of_char c :: nat in if 48 \<le> k \<and> k \<le> 57 then Some (k - 48) else None)"

definition is_digits :: "string \<Rightarrow> bool" where
  "is_digits s = (s \<noteq> [] \<and> list_all (\<lambda>c. digit_of c \<noteq> None) s)"

definition digits_value :: "string \<Rightarrow> nat" where
  "digits_value s = foldl (\<lambda>acc c. 10 * acc + (case digit_of c of None \<Rightarrow> 0 | Some d \<Rightarrow> d)) 0 s"

definition decimal_literal :: "string \<Rightarrow> real option" where
  "decimal_literal s =
     (let negative = (s \<noteq> [] \<and> hd s = CHR ''-'');
          body = (if negative then tl s else s);
          whole = takeWhile (\<lambda>c. c \<noteq> CHR ''.'') body;
          frac = drop 1 (dropWhile (\<lambda>c. c \<noteq> CHR ''.'') body)
      in if is_digits whole \<and> (frac = [] \<or> is_digits frac)
         then Some ((if negative then - 1 else 1) *
                (real (digits_value whole) + real (digits_value frac) / 10 ^ length frac))
         else None)"

text \<open>A frame given by its cells, row by row, with the index \<open>0, 1, ...\<close>; used to write
  the examples.\<close>

definition frame_of :: "string list \<Rightarrow> cell list list \<Rightarrow> table" where
  "frame_of columns cells =
     \<lparr>cols = columns,
      rows = zip [0 ..< length cells] (map (\<lambda>cs. map_of (zip columns cs)) cells)\<rparr>"

text \<open>The invariant of a frame: distinct column labels, distinct index labels, and a cell
  in every row for exactly the columns.\<close>

definition wf_table :: "table \<Rightarrow> bool" where
  "wf_table t =
     (distinct (cols t) \<and> distinct (map fst (rows t)) \<and>
      list_all (\<lambda>(i, r). dom r = set (cols t)) (rows t))"

text \<open>Lines 113-122: the page stops unless these columns exist.\<close>

definition required_columns :: "string list" where
  "required_columns = [''ResourceID'', ''Service'', ''MonthlyCostUSD'', ''Tagged'']"

definition missing_columns :: "table \<Rightarrow> string list" where
  "missing_columns df = filter (\<lambda>col. col \<notin> set (cols df)) required_columns"

subsection \<open>The filter block (lines 139-184)\<close>

record selection =
  selected_service :: string
  selected_region :: string
  selected_department :: string
  selected_environment :: string
  selected_tagged :: string

text \<open>\<^verbatim>\<open>t[t[c] == v]\<close>: KeyError without the column; a missing cell equals no string.\<close>

definition select_eq :: "string \<Rightarrow> string \<Rightarrow> table \<Rightarrow> error + table" where
  "select_eq c v t =
     (if c \<in> set (cols t) then Inr (t\<lparr>rows := filter (\<lambda>(i, r). r c = Some (Str v)) (rows t)\<rparr>)
      else Inl KeyError)"

definition select_if :: "bool \<Rightarrow> string \<Rightarrow> string \<Rightarrow> table \<Rightarrow> error + table" where
  "select_if active c v t = (if active then select_eq c v t else Inr t)"

definition and_then :: "error + 'a \<Rightarrow> ('a \<Rightarrow> error + 'b) \<Rightarrow> error + 'b" where
  "and_then x f = (case x of Inl e \<Rightarrow> Inl e | Inr v \<Rightarrow> f v)"

text \<open>Lines 144-162: without its column a select box is not shown and the selection is
  \<^verbatim>\<open>'All'\<close>.\<close>

definition sidebar :: "table \<Rightarrow> selection \<Rightarrow> selection" where
  "sidebar df choice =
     choice\<lparr>selected_region :=
              (if ''Region'' \<in> set (cols df) then selected_region choice else ''All''),
            selected_department :=
              (if ''Department'' \<in> set (cols df) then selected_department choice else ''All''),
            selected_environment :=
              (if ''Environment'' \<in> set (cols df) then selected_environment choice else ''All'')\<rparr>"

text \<open>Lines 168-184.\<close>

definition apply_filters :: "table \<Rightarrow> selection \<Rightarrow> error + table" where
  "apply_filters df sel =
     and_then (select_if (selected_service sel \<noteq> ''All'') ''Service'' (selected_service sel) df)
     (\<lambda>f1. and_then (select_if (selected_region sel \<noteq> ''All'' \<and> ''Region'' \<in> set (cols df))
                       ''Region'' (selected_region sel) f1)
     (\<lambda>f2. and_then (select_if (selected_department sel \<noteq> ''All'' \<and> ''Department'' \<in> set (cols df))
                       ''Department'' (selected_department sel) f2)
     (\<lambda>f3. and_then (select_if (selected_environment sel \<noteq> ''All'' \<and> ''Environment'' \<in> set (cols df))
                       ''Environment'' (selected_environment sel) f3)
     (\<lambda>f4. select_if (selected_tagged sel \<noteq> ''All'') ''Tagged'' (selected_tagged sel) f4))))"

text \<open>The filter as the specification words it: the active predicates, and the rows that
  satisfy all of them.\<close>

definition active_predicates :: "table \<Rightarrow> selection \<Rightarrow> (string \<times> string) list" where
  "active_predicates df sel =
     filter (\<lambda>(c, v). v \<noteq> ''All'' \<and> c \<in> set (cols df))
       [(''Service'', selected_service sel), (''Region'', selected_region sel),
        (''Department'', selected_department sel), (''Environment'', selected_environment sel),
        (''Tagged'', selected_tagged sel)]"

definition satisfies :: "row \<Rightarrow> (string \<times> string) list \<Rightarrow> bool" where
  "satisfies r preds = list_all (\<lambda>(c, v). r c = Some (Str v)) preds"

subsection \<open>Aggregations (lines 249-254, 284-310, 325-355)\<close>

















subsection \<open>Remediation (lines 633-711)\<close>

text \<open>The two snapshots of \<^verbatim>\<open>st.session_state\<close>. Lines 107-122 and 633-634: for a loaded frame
  that is not empty and has the required columns, both are copies of it.\<close>

record session =
  original_df :: table
  df_edited :: table

definition start_session :: "table \<Rightarrow> session option" where
  "start_session df =
     (if rows df \<noteq> [] \<and> missing_columns df = []
      then Some \<lparr>original_df = df, df_edited = df\<rparr> else None)"

text \<open>Lines 643-655: the rows of the edited snapshot with \<^verbatim>\<open>Tagged == 'No'\<close>, under the side
  bar's filters.\<close>

definition untagged_rows :: "table \<Rightarrow> selection \<Rightarrow> error + table" where
  "untagged_rows edited sel =
     and_then (select_eq ''Tagged'' ''No'' edited)
     (\<lambda>u0. and_then (select_if (selected_service sel \<noteq> ''All'') ''Service'' (selected_service sel) u0)
     (\<lambda>u1. and_then (select_if (selected_region sel \<noteq> ''All'' \<and> ''Region'' \<in> set (cols u1))
                       ''Region'' (selected_region sel) u1)
     (\<lambda>u2. and_then (select_if (selected_department sel \<noteq> ''All'' \<and> ''Department'' \<in> set (cols u2))
                       ''Department'' (selected_department sel) u2)
     (\<lambda>u3. select_if (selected_environment sel \<noteq> ''All'' \<and> ''Environment'' \<in> set (cols u3))
                       ''Environment'' (selected_environment sel) u3))))"

text \<open>Lines 661-670: \<^verbatim>\<open>st.data_editor(untagged_df, num_rows="fixed", disabled=...)\<close> returns
  the frame with the same index and columns; the user's edits (index label, column, new
  cell) reach the columns that are not disabled.\<close>

definition disabled_columns :: "string list" where
  "disabled_columns =
     [''AccountID'', ''ResourceID'', ''Service'', ''Region'', ''MonthlyCostUSD'', ''CreatedBy'',
      ''Tagged'']"

type_synonym edits = "nat \<Rightarrow> string \<Rightarrow> cell option"

definition edit_row :: "string list \<Rightarrow> edits \<Rightarrow> nat \<Rightarrow> row \<Rightarrow> row" where
  "edit_row disabled ed i r =
     (\<lambda>c. case r c of
            None \<Rightarrow> None
          | Some v \<Rightarrow> if c \<in> set disabled then Some v
                      else (case ed i c of None \<Rightarrow> Some v | Some w \<Rightarrow> Some w))"

definition data_editor :: "table \<Rightarrow> string list \<Rightarrow> edits \<Rightarrow> table" where
  "data_editor t disabled ed = t\<lparr>rows := map (\<lambda>(i, r). (i, edit_row disabled ed i r)) (rows t)\<rparr>"

text \<open>Lines 657-678: the editor is shown when there are untagged rows under the filters;
  otherwise \<^verbatim>\<open>edited_data = None\<close>.\<close>

definition edited_data :: "table \<Rightarrow> selection \<Rightarrow> edits \<Rightarrow> error + table option" where
  "edited_data edited sel ed =
     and_then (untagged_rows edited sel)
     (\<lambda>untagged_df.
        if length (rows untagged_df) > 0
        then Inr (Some (data_editor untagged_df
                     (filter (\<lambda>col. col \<in> set (cols untagged_df)) disabled_columns) ed))
        else Inr None)"

text \<open>\<^verbatim>\<open>df.at[idx, col] = v\<close>: a label that the frame does not have is added (a new column,
  a new row, filled with the missing marker) before the cell is set.\<close>

definition at_set :: "table \<Rightarrow> nat \<Rightarrow> string \<Rightarrow> cell \<Rightarrow> table" where
  "at_set t idx col v =
     (let t1 = (if col \<in> set (cols t) then t
                else t\<lparr>cols := cols t @ [col],
                       rows := map (\<lambda>(i, r). (i, r(col \<mapsto> Missing))) (rows t)\<rparr>);
          t2 = (if idx \<in> set (map fst (rows t1)) then t1
                else t1\<lparr>rows := rows t1 @
                        [(idx, \<lambda>c. if c \<in> set (cols t1) then Some Missing else None)]\<rparr>)
      in t2\<lparr>rows := map (\<lambda>(i, r). if i = idx then (i, r(col \<mapsto> v)) else (i, r)) (rows t2)\<rparr>)"

text \<open>\<^verbatim>\<open>pd.notna(row.get(c, None))\<close>, and lines 692-694:
  \<^verbatim>\<open>pd.notna(row.get(c, None)) if c in row else True\<close>.\<close>

fun notna :: "cell option \<Rightarrow> bool" where
  "notna None = False"
| "notna (Some Missing) = False"
| "notna (Some v) = True"

definition has_value :: "row \<Rightarrow> string \<Rightarrow> bool" where
  "has_value r c = (if r c \<noteq> None then notna (r c) else True)"

text \<open>\<^verbatim>\<open>row[col]\<close> for a column of the row's own frame (a row has a cell for each).\<close>

definition cell_at :: "row \<Rightarrow> string \<Rightarrow> cell" where
  "cell_at r c = (case r c of None \<Rightarrow> Missing | Some v \<Rightarrow> v)"

text \<open>Lines 690-703: the body of the loop, for one row of the edited frame, and the loop.\<close>

definition apply_row :: "string list \<Rightarrow> nat \<times> row \<Rightarrow> table \<times> nat \<Rightarrow> table \<times> nat" where
  "apply_row columns idx_row st =
     (case idx_row of (idx, r) \<Rightarrow>
      case st of (edited, changes_made) \<Rightarrow>
        (let has_dept = has_value r ''Department'';
             has_project = has_value r ''Project'';
             has_owner = has_value r ''Owner'';
             edited1 = fold (\<lambda>col d. at_set d idx col (cell_at r col)) columns edited
         in if has_dept \<and> has_project \<and> has_owner
            then (at_set edited1 idx ''Tagged'' (Str ''Yes''), changes_made + 1)
            else (edited1, changes_made)))"

definition apply_changes :: "table \<Rightarrow> table \<Rightarrow> table \<times> nat" where
  "apply_changes edited batch =
     fold (apply_row (cols batch)) (rows batch) (edited, 0)"

text \<open>Lines 686-711: one click on the apply button, with the side bar's selection and the
  user's edits; the new session and \<^verbatim>\<open>changes_made\<close>.\<close>

definition apply_click :: "session \<Rightarrow> selection \<Rightarrow> edits \<Rightarrow> error + session \<times> nat" where
  "apply_click s sel ed =
     and_then (edited_data (df_edited s) sel ed)
     (\<lambda>e. case e of
            None \<Rightarrow> Inr (s, 0)
          | Some batch \<Rightarrow>
              if length (rows batch) > 0
              then (case apply_changes (df_edited s) batch of
                      (edited, changes_made) \<Rightarrow> Inr (s\<lparr>df_edited := edited\<rparr>, changes_made))
              else Inr (s, 0))"

fun apply_clicks :: "session \<Rightarrow> (selection \<times> edits) list \<Rightarrow> error + session" where
  "apply_clicks s [] = Inr s"
| "apply_clicks s ((sel, ed) # rest) =
     and_then (apply_click s sel ed) (\<lambda>(s', n). apply_clicks s' rest)"

text \<open>\<^verbatim>\<open>df['Tagged'].value_counts().get('No', 0)\<close> (lines 767-768), and the row with a given
  index label.\<close>

definition count_untagged :: "table \<Rightarrow> nat" where
  "count_untagged t = length (filter (\<lambda>(i, r). r ''Tagged'' = Some (Str ''No'')) (rows t))"

definition row_at :: "table \<Rightarrow> nat \<Rightarrow> row option" where
  "row_at t idx = map_of (rows t) idx"

text \<open>The auto-tag rule as the specification words it: the three fields are all non-missing.\<close>

definition complete_tags :: "row \<Rightarrow> bool" where
  "complete_tags r = (notna (r ''Department'') \<and> notna (r ''Project'') \<and> notna (r ''Owner''))"

text \<open>The handler in closed form: the rows that the editor shows, and the row that the loop
  leaves in the edited snapshot for a row of the editor.\<close>

definition shown_in_editor :: "table \<Rightarrow> selection \<Rightarrow> nat \<times> row \<Rightarrow> bool" where
  "shown_in_editor edited sel ir =
     (case ir of (i, r) \<Rightarrow>
        r ''Tagged'' = Some (Str ''No'') \<and>
        satisfies r (active_predicates edited (sel\<lparr>selected_tagged := ''All''\<rparr>)))"

definition passes_gate :: "row \<Rightarrow> bool" where
  "passes_gate r =
     (has_value r ''Department'' \<and> has_value r ''Project'' \<and> has_value r ''Owner'')"

definition written_row :: "row \<Rightarrow> row" where
  "written_row r = (if passes_gate r then r(''Tagged'' \<mapsto> Str ''Yes'') else r)"

text \<open>The columns that the editor disables, the row that one click leaves in the edited
  snapshot, and the relation between an edited snapshot and a later one: the same rows in
  the same order, none changed from \<open>Yes\<close> and none changed to \<open>No\<close>.\<close>

definition editor_disabled :: "table \<Rightarrow> string list" where
  "editor_disabled t = filter (\<lambda>col. col \<in> set (cols t)) disabled_columns"

definition remediate_row :: "table \<Rightarrow> selection \<Rightarrow> edits \<Rightarrow> nat \<times> row \<Rightarrow> row" where
  "remediate_row t sel ed ir =
     (case ir of (i, r0) \<Rightarrow>
        if shown_in_editor t sel (i, r0)
        then written_row (edit_row (editor_disabled t) ed i r0) else r0)"

definition only_tags :: "table \<Rightarrow> table \<Rightarrow> bool" where
  "only_tags before after =
     list_all2 (\<lambda>(i, r0) (j, r1). i = j
         \<and> (r1 ''Tagged'' = Some (Str ''No'') \<longrightarrow> r0 ''Tagged'' = Some (Str ''No''))
         \<and> (r0 ''Tagged'' = Some (Str ''Yes'') \<longrightarrow> r1 ''Tagged'' = Some (Str ''Yes'')))
       (rows before) (rows after)"

subsection \<open>The exports (lines 722-744) and the frame that \<^verbatim>\<open>load_data\<close> returns\<close>








text \<open>Lines 83-92 on one field of a repaired row under the header name \<open>h\<close>, and the frame that
  they build from the header names and the repaired rows.\<close>

definition typed_cell :: "(string \<Rightarrow> real option) \<Rightarrow> string \<Rightarrow> string \<Rightarrow> cell" where
  "typed_cell to_num h f =
     (let v = replace_empty (str_strip (Str f))
      in if h = ''MonthlyCostUSD'' then to_numeric to_num v else v)"









subsection \<open>Examples\<close>

definition all_selected :: selection where
  "all_selected =
     \<lparr>selected_service = ''All'', selected_region = ''All'', selected_department = ''All'',
      selected_environment = ''All'', selected_tagged = ''All''\<rparr>"

definition example_df :: table where
  "example_df =
     frame_of [''ResourceID'', ''Service'', ''Department'', ''Project'', ''Owner'',
               ''MonthlyCostUSD'', ''Tagged'']
       [[Str ''r1'', Str ''EC2'', Missing, Missing, Missing, Num 30, Str ''No''],
        [Str ''r2'', Str ''S3'', Str ''Eng'', Str ''Apollo'', Str ''jdoe'', Num 10, Str ''Yes''],
        [Str ''r3'', Str ''EC2'', Str ''Eng'', Missing, Missing, Missing, Str ''No'']]"

definition empty_df :: table where
  "empty_df = frame_of [''ResourceID'', ''Service'', ''MonthlyCostUSD'', ''Tagged''] []"

definition example_session :: session where
  "example_session = \<lparr>original_df = example_df, df_edited = example_df\<rparr>"

definition example_edits :: edits where
  "example_edits =
     (\<lambda>i c. if i = 0 \<and> c \<in> {''Department'', ''Project'', ''Owner''} then Some (Str ''ops'')
            else if i = 2 \<and> c = ''Project'' then Some (Str ''Apollo'')
            else if c = ''Tagged'' then Some (Str ''Yes'')
            else None)"

definition example_batch :: table where
  "example_batch =
     \<lparr>cols = cols example_df,
      rows = [(0, map_of (zip (cols example_df)
                 [Str ''r1'', Str ''EC2'', Str ''ops'', Str ''ops'', Str ''ops'', Num 30, Str ''No''])),
              (2, map_of (zip (cols example_df)
                 [Str ''r3'', Str ''EC2'', Str ''Eng'', Str ''Apollo'', Missing, Missing, Str ''No'']))]\<rparr>"

definition plain_df :: table where
  "plain_df =
     frame_of [''ResourceID'', ''Service'', ''MonthlyCostUSD'', ''Tagged'']
       [[Str ''r1'', Str ''EC2'', Num 5, Str ''No''],
        [Str ''r2'', Str ''S3'', Num 7, Str ''Yes'']]"

definition plain_session :: session where
  "plain_session = \<lparr>original_df = plain_df, df_edited = plain_df\<rparr>"

definition no_edits :: edits where
  "no_edits = (\<lambda>i c. None)"

definition plain_batch :: table where
  "plain_batch =
     \<lparr>cols = cols plain_df,
      rows = [(0, map_of (zip (cols plain_df) [Str ''r1'', Str ''EC2'', Num 5, Str ''No'']))]\<rparr>"







section \<open>Properties\<close>

lemmas example_defs = example_df_def empty_df_def frame_of_def all_selected_def

subsection \<open>Row repair and ingestion\<close>

lemma slice_to_neg3: "slice_to xs (- 3) = take (length xs - 3) xs"
  by (simp add: slice_to_def slice_bound_def Let_def nat_diff_distrib' max_def)

lemma slice_from_neg3: "slice_from xs (- 3) = drop (length xs - 3) xs"
  by (simp add: slice_from_def slice_bound_def Let_def max_def nat_diff_distrib')

lemma slice_to_nat: "slice_to xs (int n) = take n xs"
  by (simp add: slice_to_def slice_bound_def Let_def min_def)

lemma length_repair_row: "length (repair_row n fs) = n"
  by (auto simp: repair_row_def Let_def slice_to_neg3 slice_from_neg3 slice_to_nat)

lemmas eval_defs = parse_content_def parse_header_def parse_line_def line_fields_def repair_row_def
   strip_def lstrip_def rstrip_def is_space_def unquote_def slice_to_def slice_from_def slice_bound_def

lemmas load_defs = load_data_def DataFrame_def map_cells_def map_column_def

lemmas decimal_defs = decimal_literal_def is_digits_def digit_of_def digits_value_def

text \<open>
  C1. A data line with \<open>k\<close> fields, \<open>3 \<le> k < N\<close>, is rebuilt as its first \<open>k - 3\<close> fields,
  then \<open>N - k\<close> empty strings, then its last three fields; the rebuilt row has \<open>N\<close> fields.
\<close>

theorem row_repair_right_aligned:
  assumes "3 \<le> length (line_fields line)" and "length (line_fields line) < N"
  shows "parse_line N line =
           take (length (line_fields line) - 3) (line_fields line)
           @ replicate (N - length (line_fields line)) []
           @ drop (length (line_fields line) - 3) (line_fields line)
         \<and> length (drop (length (line_fields line) - 3) (line_fields line)) = 3
         \<and> length (parse_line N line) = N"
  using assms
  by (simp add: parse_line_def repair_row_def Let_def slice_to_neg3 slice_from_neg3)

theorem row_repair_right_aligned_witness:
  "parse_line 6 ''r1,EC2,alice,10,No'' = [''r1'', ''EC2'', [], ''alice'', ''10'', ''No'']
   \<and> length (parse_line 6 ''r1,EC2,alice,10,No'') = 6"
proof -
  have f: "line_fields ''r1,EC2,alice,10,No'' = [''r1'', ''EC2'', ''alice'', ''10'', ''No'']"
    by (simp add: eval_defs)
  have "3 \<le> length (line_fields ''r1,EC2,alice,10,No'')"
    and "length (line_fields ''r1,EC2,alice,10,No'') < 6"
    by (simp_all add: f)
  from row_repair_right_aligned [OF this] show ?thesis
    by (simp add: f)
qed

text \<open>
  C3, as stated, fails: with the header \<open>A,B,C,D,E\<close> the line \<open>v1,v4,v5\<close> (bare, or wrapped
  in one pair of double quotes) is not repaired to \<open>[v1, "", "", v4, v5]\<close>.
\<close>

theorem short_row_example_counterexample:
  "parse_content ''A,B,C,D,E\<newline>v1,v4,v5'' \<noteq>
     Inr ([''A'', ''B'', ''C'', ''D'', ''E''], [[''v1'', [], [], ''v4'', ''v5'']])
   \<and> parse_content (CHR 0x22 # ''A,B,C,D,E'' @ CHR 0x22 # CHR ''\<newline>'' # CHR 0x22 # ''v1,v4,v5'' @ [CHR 0x22]) \<noteq>
     Inr ([''A'', ''B'', ''C'', ''D'', ''E''], [[''v1'', [], [], ''v4'', ''v5'']])"
  by (simp add: eval_defs)

text \<open>
  C3, amended. All three fields of \<open>v1,v4,v5\<close> are its last three, so the two empty fields
  come first: the repaired row is \<open>["", "", v1, v4, v5]\<close>; the empty fields are at positions
  A and B, not at the end of the row.
\<close>

theorem short_row_example:
  "parse_content ''A,B,C,D,E\<newline>v1,v4,v5'' =
     Inr ([''A'', ''B'', ''C'', ''D'', ''E''], [[[], [], ''v1'', ''v4'', ''v5'']])"
  by (simp add: eval_defs)


lemma foldr_max_const:
  "list_all (\<lambda>r. length r = n) data \<Longrightarrow>
     foldr max (map length data) 0 = (if data = [] then 0 else n)"
  by (induction data) (auto simp: max_def)

lemma DataFrame_rectangular:
  assumes "list_all (\<lambda>r. length r = length columns) data"
  shows "DataFrame data columns =
           Inr \<lparr>cols = columns,
                rows = zip [0 ..< length data] (map (\<lambda>fs. map_of (zip columns (map Str fs))) data)\<rparr>"
proof -
  have eq: "map (\<lambda>fs. map_of (zip columns (map Str fs @ replicate (length columns - length fs) Missing))) data
        = map (\<lambda>fs. map_of (zip columns (map Str fs))) data"
    using assms by (induction data) auto
  have fm: "\<not> (data \<noteq> [] \<and> foldr max (map length data) 0 \<noteq> length columns)"
    using foldr_max_const [OF assms] by simp
  show ?thesis
    unfolding DataFrame_def eq using fm by (simp only: if_False)
qed

lemma parse_rows_rectangular: "list_all (\<lambda>r. length r = n) (map (parse_line n) ls)"
  by (simp add: list_all_iff parse_line_def length_repair_row)

lemma load_data_success:
  assumes "split_on CHR ''\<newline>'' (strip content) = header_line # data_lines"
    and "distinct (parse_header header_line)"
  shows "\<exists>t. load_data to_num content = Inr t \<and> cols t = parse_header header_line
             \<and> map fst (rows t) = [0 ..< length data_lines]"
  using assms DataFrame_rectangular [OF parse_rows_rectangular, of "parse_header header_line" data_lines]
  by (simp add: load_data_def parse_content_def Let_def map_cells_def map_column_def
      map_fst_zip_take comp_def case_prod_unfold)

text \<open>
  C4, as stated, fails: a file whose second data line has two fields is loaded, with that
  line as a row of the table.
\<close>

theorem short_line_is_loaded_counterexample:
  "length (line_fields ''10,No'') < 3 \<and>
   (case load_data decimal_literal ''ResourceID,Service,MonthlyCostUSD,Tagged\<newline>r1,EC2,5,Yes\<newline>10,No'' of
      Inl e \<Rightarrow> False
    | Inr t \<Rightarrow> cols t = [''ResourceID'', ''Service'', ''MonthlyCostUSD'', ''Tagged'']
        \<and> map fst (rows t) = [0, 1]
        \<and> map (\<lambda>(i, r). map r (cols t)) (rows t) =
            [[Some (Str ''r1''), Some (Str ''EC2''), Some (Num 5), Some (Str ''Yes'')],
             [Some Missing, Some Missing, Some (Num 10), Some (Str ''No'')]])"
  by (simp add: load_defs eval_defs decimal_defs)

text \<open>
  C4, amended. A file whose header names are distinct is loaded whatever the field counts of
  its data lines: a data line with fewer than 3 fields raises no error, the table has one
  row per data line, and the line is repaired to \<open>N\<close> fields; when it has fewer than \<open>N\<close>
  fields, the repaired row is \<open>N - k\<close> empty strings followed by all \<open>k\<close> fields of the line.
\<close>

theorem short_line_is_loaded:
  assumes "split_on CHR ''\<newline>'' (strip content) = header_line # data_lines"
    and "distinct (parse_header header_line)"
    and "line \<in> set data_lines"
    and "length (line_fields line) < 3"
  shows "(\<exists>t. load_data to_num content = Inr t \<and> cols t = parse_header header_line
              \<and> map fst (rows t) = [0 ..< length data_lines])
         \<and> length (parse_line (length (parse_header header_line)) line) = length (parse_header header_line)
         \<and> (length (line_fields line) < length (parse_header header_line) \<longrightarrow>
              parse_line (length (parse_header header_line)) line =
                replicate (length (parse_header header_line) - length (line_fields line)) []
                @ line_fields line)"
proof -
  have "parse_line n line = replicate (n - length (line_fields line)) [] @ line_fields line"
    if "length (line_fields line) < n" for n
    using that assms(4)
    by (simp add: parse_line_def repair_row_def Let_def slice_to_neg3 slice_from_neg3)
  with load_data_success [OF assms(1,2)] show ?thesis
    by (simp add: parse_line_def length_repair_row)
qed

theorem short_line_is_loaded_witness:
  "(\<exists>t. load_data decimal_literal ''A,B,C,D\<newline>x,y'' = Inr t \<and> cols t = [''A'', ''B'', ''C'', ''D'']
        \<and> map fst (rows t) = [0])
   \<and> parse_line 4 ''x,y'' = [[], [], ''x'', ''y'']"
proof -
  have h: "parse_header ''A,B,C,D'' = [''A'', ''B'', ''C'', ''D'']"
    and f: "line_fields ''x,y'' = [''x'', ''y'']"
    by (simp_all add: eval_defs)
  have "split_on CHR ''\<newline>'' (strip ''A,B,C,D\<newline>x,y'') = ''A,B,C,D'' # [''x,y'']"
    and "distinct (parse_header ''A,B,C,D'')"
    and "''x,y'' \<in> set [''x,y'']"
    and "length (line_fields ''x,y'') < 3"
    by (simp_all add: h f) (simp add: eval_defs)
  from short_line_is_loaded [OF this, of decimal_literal] show ?thesis
    by (simp add: h f eval_nat_numeral)
qed

subsection \<open>Filtering\<close>

lemma select_if_rows:
  "(active \<Longrightarrow> c \<in> set (cols t)) \<Longrightarrow>
     select_if active c v t =
       Inr (t\<lparr>rows := filter (\<lambda>(i, r). active \<longrightarrow> r c = Some (Str v)) (rows t)\<rparr>)"
  by (cases active) (simp_all add: select_if_def select_eq_def)

lemma and_then_Inr: "and_then (Inr v) f = f v"
  by (simp add: and_then_def)

lemma satisfies_active:
  "satisfies r (active_predicates df sel) =
     ((selected_service sel \<noteq> ''All'' \<and> ''Service'' \<in> set (cols df) \<longrightarrow>
         r ''Service'' = Some (Str (selected_service sel)))
      \<and> (selected_region sel \<noteq> ''All'' \<and> ''Region'' \<in> set (cols df) \<longrightarrow>
         r ''Region'' = Some (Str (selected_region sel)))
      \<and> (selected_department sel \<noteq> ''All'' \<and> ''Department'' \<in> set (cols df) \<longrightarrow>
         r ''Department'' = Some (Str (selected_department sel)))
      \<and> (selected_environment sel \<noteq> ''All'' \<and> ''Environment'' \<in> set (cols df) \<longrightarrow>
         r ''Environment'' = Some (Str (selected_environment sel)))
      \<and> (selected_tagged sel \<noteq> ''All'' \<and> ''Tagged'' \<in> set (cols df) \<longrightarrow>
         r ''Tagged'' = Some (Str (selected_tagged sel))))"
  by (simp add: satisfies_def active_predicates_def)

lemma apply_filters_rows:
  assumes "''Service'' \<in> set (cols df)" and "''Tagged'' \<in> set (cols df)"
  shows "apply_filters df sel =
           Inr (df\<lparr>rows := filter (\<lambda>(i, r). satisfies r (active_predicates df sel)) (rows df)\<rparr>)"
  unfolding apply_filters_def satisfies_active
  using assms
  by (simp add: select_if_rows and_then_Inr case_prod_unfold conj_commute conj_left_commute cong: conj_cong)

text \<open>
  C8. With the required columns \<open>Service\<close> and \<open>Tagged\<close> in the frame, the filter block
  returns the rows that satisfy every active predicate (a selection other than \<open>All\<close>, on a
  column of the frame), in the order of the frame; with every selection \<open>All\<close> it returns
  the frame itself. The filter is a function of the frame: the frame is not changed.
\<close>

theorem filter_is_conjunction:
  assumes "''Service'' \<in> set (cols df)" and "''Tagged'' \<in> set (cols df)"
  shows "apply_filters df sel =
           Inr (df\<lparr>rows := filter (\<lambda>(i, r). satisfies r (active_predicates df sel)) (rows df)\<rparr>)
         \<and> (selected_service sel = ''All'' \<and> selected_region sel = ''All''
              \<and> selected_department sel = ''All'' \<and> selected_environment sel = ''All''
              \<and> selected_tagged sel = ''All'' \<longrightarrow> apply_filters df sel = Inr df)"
  using apply_filters_rows [OF assms, of sel]
  by (simp add: satisfies_active)

theorem filter_is_conjunction_witness:
  "(case apply_filters example_df
           (all_selected\<lparr>selected_service := ''EC2'', selected_department := ''Eng''\<rparr>) of
      Inl e \<Rightarrow> False
    | Inr v \<Rightarrow> cols v = cols example_df \<and> map fst (rows v) = [2])
   \<and> apply_filters example_df all_selected = Inr example_df"
proof -
  have c: "''Service'' \<in> set (cols example_df)" "''Tagged'' \<in> set (cols example_df)"
    by (simp_all add: example_defs)
  show ?thesis
    using filter_is_conjunction [OF c, of "all_selected\<lparr>selected_service := ''EC2'', selected_department := ''Eng''\<rparr>"]
      filter_is_conjunction [OF c, of all_selected]
    by (simp add: example_defs satisfies_def active_predicates_def)
qed

subsection \<open>Aggregations\<close>














subsection \<open>Remediation\<close>

lemma at_set_present:
  "col \<in> set (cols t) \<Longrightarrow> idx \<in> fst ` set (rows t) \<Longrightarrow>
     at_set t idx col v =
       t\<lparr>rows := map (\<lambda>(i, r). if i = idx then (i, r(col \<mapsto> v)) else (i, r)) (rows t)\<rparr>"
  by (simp add: at_set_def)

lemma fst_image_upd:
  "fst ` (\<lambda>(i, r). if i = idx then (i, g r) else (i, r)) ` S = fst ` S"
  by (force simp: image_iff split: if_splits)

lemma map_upd_upd:
  "(\<lambda>(i, r). if i = idx then (i, g r) else (i, r)) \<circ>
     (\<lambda>(i, r). if i = idx then (i, h r) else (i, r))
   = (\<lambda>(i, r). if i = idx then (i, g (h r)) else (i, r))"
  by (auto simp: fun_eq_iff)

lemma fold_at_set:
  "set columns \<subseteq> set (cols t) \<Longrightarrow> idx \<in> fst ` set (rows t) \<Longrightarrow>
     fold (\<lambda>col d. at_set d idx col (f col)) columns t =
       t\<lparr>rows := map (\<lambda>(i, r). if i = idx
                          then (i, fold (\<lambda>col r. r(col \<mapsto> f col)) columns r) else (i, r))
                    (rows t)\<rparr>"
proof (induction columns arbitrary: t)
  case Nil
  show ?case by (simp add: case_prod_unfold cong del: if_weak_cong)
next
  case (Cons c columns)
  let ?G = "\<lambda>col d. at_set d idx col (f col)"
  let ?F = "\<lambda>col r. r(col \<mapsto> f col)"
  let ?t = "t\<lparr>rows := map (\<lambda>(i, r). if i = idx then (i, r(c \<mapsto> f c)) else (i, r)) (rows t)\<rparr>"
  have a: "at_set t idx c (f c) = ?t"
    using Cons.prems by (simp add: at_set_present)
  have ih: "fold ?G columns ?t =
      ?t\<lparr>rows := map (\<lambda>(i, r). if i = idx then (i, fold ?F columns r) else (i, r)) (rows ?t)\<rparr>"
    using Cons.prems by (intro Cons.IH) (simp_all add: fst_image_upd)
  have u: "(\<lambda>(i, r). if i = idx then (i, fold ?F columns (r(c \<mapsto> f c))) else (i, r))
         = (\<lambda>(i, r). if i = idx then (i, fold ?F (c # columns) r) else (i, r))"
    by (auto simp: fun_eq_iff)
  have "fold ?G (c # columns) t = fold ?G columns ?t"
    by (simp add: a)
  also have "\<dots> = t\<lparr>rows := map (\<lambda>(i, r). if i = idx then (i, fold ?F columns (r(c \<mapsto> f c))) else (i, r)) (rows t)\<rparr>"
    unfolding ih by (simp add: map_upd_upd)
  finally show ?case
    unfolding u .
qed

lemma fold_upd_row:
  "fold (\<lambda>col r. r(col \<mapsto> f col)) columns r = (\<lambda>c. if c \<in> set columns then Some (f c) else r c)"
  by (induction columns arbitrary: r) (auto simp: fun_eq_iff)

lemma overwrite_row:
  "dom r0 = set C \<Longrightarrow> dom r = set C \<Longrightarrow>
     (\<lambda>c. if c \<in> set C then Some (cell_at r c) else r0 c) = r"
proof (rule ext)
  fix c
  assume d0: "dom r0 = set C" and d: "dom r = set C"
  show "(if c \<in> set C then Some (cell_at r c) else r0 c) = r c"
  proof (cases "c \<in> set C")
    case True
    then have "c \<in> dom r" using d by simp
    then obtain v where "r c = Some v" by auto
    then show ?thesis using True by (simp add: cell_at_def)
  next
    case False
    then have "c \<notin> dom r0" and "c \<notin> dom r" using d0 d by simp_all
    then show ?thesis using False by (simp add: domIff)
  qed
qed

lemma apply_row_closed:
  assumes "idx \<in> fst ` set (rows t)" and "dom r = set (cols t)"
    and "list_all (\<lambda>(i, r0). dom r0 = set (cols t)) (rows t)"
    and "''Tagged'' \<in> set (cols t)"
  shows "apply_row (cols t) (idx, r) (t, n) =
           (t\<lparr>rows := map (\<lambda>(i, r0). if i = idx then (i, written_row r) else (i, r0)) (rows t)\<rparr>,
            n + (if passes_gate r then 1 else 0))"
proof -
  have w: "fold (\<lambda>col d. at_set d idx col (cell_at r col)) (cols t) t =
        t\<lparr>rows := map (\<lambda>(i, r0). if i = idx then (i, r) else (i, r0)) (rows t)\<rparr>"
  proof -
    have "map (\<lambda>(i, r0). if i = idx
                 then (i, fold (\<lambda>col r'. r'(col \<mapsto> cell_at r col)) (cols t) r0) else (i, r0)) (rows t)
        = map (\<lambda>(i, r0). if i = idx then (i, r) else (i, r0)) (rows t)"
      using assms(2,3) by (intro map_cong) (auto simp: fold_upd_row overwrite_row list_all_iff)
    then show ?thesis
      using assms(1) by (simp add: fold_at_set)
  qed
  let ?t1 = "t\<lparr>rows := map (\<lambda>(i, r0). if i = idx then (i, r) else (i, r0)) (rows t)\<rparr>"
  have "idx \<in> fst ` set (rows ?t1)" and "''Tagged'' \<in> set (cols ?t1)"
    using assms(1,4) by (simp_all add: fst_image_upd)
  from at_set_present [OF this(2,1)]
  have y: "at_set ?t1 idx ''Tagged'' (Str ''Yes'') =
      t\<lparr>rows := map (\<lambda>(i, r0). if i = idx then (i, r(''Tagged'' \<mapsto> Str ''Yes'')) else (i, r0)) (rows t)\<rparr>"
    by (simp add: map_upd_upd)
  show ?thesis
  proof (cases "passes_gate r")
    case True
    then have wr: "written_row r = r(''Tagged'' \<mapsto> Str ''Yes'')"
      by (simp add: written_row_def)
    show ?thesis
      unfolding apply_row_def Let_def prod.case w y wr passes_gate_def [symmetric]
      using True by simp
  next
    case False
    then have wr: "written_row r = r"
      by (simp add: written_row_def)
    show ?thesis
      unfolding apply_row_def Let_def prod.case w wr passes_gate_def [symmetric]
      using False by simp
  qed
qed

lemma dom_rows_upd:
  "list_all (\<lambda>(i, r0). dom r0 = D) rs \<Longrightarrow> dom w = D \<Longrightarrow>
     list_all (\<lambda>(i, r0). dom r0 = D) (map (\<lambda>(i, r0). if i = idx then (i, w) else (i, r0)) rs)"
  by (induction rs) (simp_all split: prod.splits)

lemma apply_changes_fold:
  assumes "distinct (map fst bs)" and "fst ` set bs \<subseteq> fst ` set (rows t)"
    and "list_all (\<lambda>(i, r). dom r = set (cols t)) bs"
    and "list_all (\<lambda>(i, r0). dom r0 = set (cols t)) (rows t)"
    and "''Tagged'' \<in> set (cols t)"
  shows "fold (apply_row (cols t)) bs (t, n) =
           (t\<lparr>rows := map (\<lambda>(i, r0). (i, case map_of bs i of None \<Rightarrow> r0
                                             | Some r \<Rightarrow> written_row r)) (rows t)\<rparr>,
            n + length (filter (\<lambda>(i, r). passes_gate r) bs))"
  using assms
proof (induction bs arbitrary: t n)
  case Nil
  show ?case by (simp add: case_prod_unfold)
next
  case (Cons b bs)
  obtain idx r where b: "b = (idx, r)" by (cases b)
  let ?t = "t\<lparr>rows := map (\<lambda>(i, r0). if i = idx then (i, written_row r) else (i, r0)) (rows t)\<rparr>"
  have dw: "dom (written_row r) = set (cols t)"
    using Cons.prems(3,5) by (auto simp: b written_row_def)
  have step: "apply_row (cols t) (idx, r) (t, n) = (?t, n + (if passes_gate r then 1 else 0))"
    using Cons.prems by (intro apply_row_closed) (auto simp: b)
  have ih: "fold (apply_row (cols ?t)) bs (?t, n + (if passes_gate r then 1 else 0)) =
      (?t\<lparr>rows := map (\<lambda>(i, r0). (i, case map_of bs i of None \<Rightarrow> r0
                                             | Some r \<Rightarrow> written_row r)) (rows ?t)\<rparr>,
       n + (if passes_gate r then 1 else 0) + length (filter (\<lambda>(i, r). passes_gate r) bs))"
  proof (intro Cons.IH)
    show "distinct (map fst bs)" using Cons.prems(1) by simp
    show "fst ` set bs \<subseteq> fst ` set (rows ?t)"
      using Cons.prems(2) by (simp add: fst_image_upd)
    show "list_all (\<lambda>(i, r). dom r = set (cols ?t)) bs" using Cons.prems(3) by simp
    show "list_all (\<lambda>(i, r0). dom r0 = set (cols ?t)) (rows ?t)"
      using dom_rows_upd [OF Cons.prems(4) dw] by simp
    show "''Tagged'' \<in> set (cols ?t)" using Cons.prems(5) by simp
  qed
  have notin: "map_of bs idx = None"
    using Cons.prems(1) by (simp add: b map_of_eq_None_iff)
  have rows_eq: "map (\<lambda>(i, r0). (i, case map_of bs i of None \<Rightarrow> r0 | Some r \<Rightarrow> written_row r)) (rows ?t)
      = map (\<lambda>(i, r0). (i, case map_of (b # bs) i of None \<Rightarrow> r0 | Some r \<Rightarrow> written_row r)) (rows t)"
    using notin by (auto simp: b)
  show ?case
    using ih unfolding rows_eq
    by (simp add: b step)
qed

lemma select_eq_present:
  "c \<in> set (cols t) \<Longrightarrow>
     select_eq c v t = Inr (t\<lparr>rows := filter (\<lambda>(i, r). r c = Some (Str v)) (rows t)\<rparr>)"
  by (simp add: select_eq_def)

lemma untagged_rows_closed:
  assumes "''Service'' \<in> set (cols t)" and "''Tagged'' \<in> set (cols t)"
  shows "untagged_rows t sel = Inr (t\<lparr>rows := filter (shown_in_editor t sel) (rows t)\<rparr>)"
proof -
  have "shown_in_editor t sel = (\<lambda>(i, r).
          r ''Tagged'' = Some (Str ''No'')
          \<and> (selected_service sel \<noteq> ''All'' \<longrightarrow> r ''Service'' = Some (Str (selected_service sel)))
          \<and> (selected_region sel \<noteq> ''All'' \<and> ''Region'' \<in> set (cols t) \<longrightarrow>
               r ''Region'' = Some (Str (selected_region sel)))
          \<and> (selected_department sel \<noteq> ''All'' \<and> ''Department'' \<in> set (cols t) \<longrightarrow>
               r ''Department'' = Some (Str (selected_department sel)))
          \<and> (selected_environment sel \<noteq> ''All'' \<and> ''Environment'' \<in> set (cols t) \<longrightarrow>
               r ''Environment'' = Some (Str (selected_environment sel))))"
    using assms by (simp add: shown_in_editor_def fun_eq_iff satisfies_active)
  then show ?thesis
    unfolding untagged_rows_def using assms
    by (simp add: select_eq_present select_if_rows and_then_Inr case_prod_unfold
        conj_commute conj_left_commute cong: conj_cong)
qed

lemma edited_data_closed:
  assumes "''Service'' \<in> set (cols t)" and "''Tagged'' \<in> set (cols t)"
  shows "edited_data t sel ed =
           Inr (if filter (shown_in_editor t sel) (rows t) = [] then None
                else Some (t\<lparr>rows := map (\<lambda>(i, r). (i, edit_row (editor_disabled t) ed i r))
                                       (filter (shown_in_editor t sel) (rows t))\<rparr>))"
  by (simp add: edited_data_def untagged_rows_closed [OF assms] and_then_Inr data_editor_def
      editor_disabled_def)

lemma dom_edit_row: "dom (edit_row D ed i r) = dom r"
  by (auto simp: edit_row_def dom_def split: option.splits if_splits)

lemma dom_rows_edited:
  "list_all (\<lambda>(i, r0). dom r0 = D) rs \<Longrightarrow>
     list_all (\<lambda>(i, r). dom r = D) (map (\<lambda>(i, r). (i, edit_row E ed i r)) (filter P rs))"
  by (induction rs) (simp_all add: dom_edit_row split: prod.splits)

lemma map_of_edited_None:
  "i \<notin> fst ` set rs \<Longrightarrow> map_of (map (\<lambda>(i, r). (i, g i r)) (filter P rs)) i = None"
  by (induction rs) auto

lemma map_of_edited:
  "distinct (map fst rs) \<Longrightarrow> (i, r0) \<in> set rs \<Longrightarrow>
     map_of (map (\<lambda>(i, r). (i, g i r)) (filter P rs)) i = (if P (i, r0) then Some (g i r0) else None)"
proof (induction rs)
  case Nil
  then show ?case by simp
next
  case (Cons a rs)
  obtain j r where a: "a = (j, r)" by (cases a)
  show ?case
  proof (cases "(i, r0) = a")
    case True
    then have "i \<notin> fst ` set rs" using Cons.prems(1) by (simp add: a)
    from map_of_edited_None [OF this, of g P] True show ?thesis by (simp add: a)
  next
    case False
    then have m: "(i, r0) \<in> set rs" using Cons.prems(2) by simp
    then have "i \<noteq> j" using Cons.prems(1) by (auto simp: a image_iff)
    then show ?thesis
      using Cons.IH [OF _ m] Cons.prems(1) by (simp add: a)
  qed
qed

lemma apply_click_closed:
  assumes "wf_table (df_edited s)"
    and "''Service'' \<in> set (cols (df_edited s))" and "''Tagged'' \<in> set (cols (df_edited s))"
  shows "apply_click s sel ed =
           Inr (s\<lparr>df_edited := (df_edited s)\<lparr>rows :=
                     map (\<lambda>(i, r0). (i, remediate_row (df_edited s) sel ed (i, r0)))
                       (rows (df_edited s))\<rparr>\<rparr>,
                length (filter (\<lambda>(i, r0). shown_in_editor (df_edited s) sel (i, r0)
                          \<and> passes_gate (edit_row (editor_disabled (df_edited s)) ed i r0))
                   (rows (df_edited s))))"
proof -
  let ?t = "df_edited s"
  let ?P = "shown_in_editor ?t sel"
  let ?E = "\<lambda>(i, r). (i, edit_row (editor_disabled ?t) ed i r)"
  let ?bs = "map ?E (filter ?P (rows ?t))"
  let ?b = "?t\<lparr>rows := ?bs\<rparr>"
  have d: "distinct (map fst (rows ?t))" and doms: "list_all (\<lambda>(i, r0). dom r0 = set (cols ?t)) (rows ?t)"
    using assms(1) by (simp_all add: wf_table_def)
  have fst_bs: "map fst ?bs = map fst (filter ?P (rows ?t))"
    by (simp add: comp_def case_prod_unfold)
  have p1: "distinct (map fst ?bs)"
    unfolding fst_bs using d by (rule distinct_map_filter)
  have p2: "fst ` set ?bs \<subseteq> fst ` set (rows ?t)"
    by (force simp: image_iff)
  have p3: "list_all (\<lambda>(i, r). dom r = set (cols ?t)) ?bs"
    using doms by (rule dom_rows_edited)
  have rows_eq: "map (\<lambda>(i, r0). (i, case map_of ?bs i of None \<Rightarrow> r0 | Some r \<Rightarrow> written_row r)) (rows ?t)
      = map (\<lambda>(i, r0). (i, remediate_row ?t sel ed (i, r0))) (rows ?t)"
    using map_of_edited [OF d, of _ _ "\<lambda>i r. edit_row (editor_disabled ?t) ed i r" ?P]
    by (intro map_cong) (auto simp: remediate_row_def)
  have cnt: "length (filter (\<lambda>(i, r). passes_gate r) ?bs) =
      length (filter (\<lambda>(i, r0). ?P (i, r0) \<and> passes_gate (edit_row (editor_disabled ?t) ed i r0)) (rows ?t))"
    by (simp add: filter_map comp_def case_prod_unfold conj_commute)
  have ac: "apply_changes ?t ?b =
      (?t\<lparr>rows := map (\<lambda>(i, r0). (i, remediate_row ?t sel ed (i, r0))) (rows ?t)\<rparr>,
       length (filter (\<lambda>(i, r0). ?P (i, r0) \<and> passes_gate (edit_row (editor_disabled ?t) ed i r0)) (rows ?t)))"
    using apply_changes_fold [OF p1 p2 p3 doms assms(3), of 0]
    unfolding rows_eq cnt by (simp add: apply_changes_def)
  show ?thesis
  proof (cases "filter ?P (rows ?t) = []")
    case True
    then have none: "\<And>i r0. (i, r0) \<in> set (rows ?t) \<Longrightarrow> \<not> ?P (i, r0)"
      by (auto simp: filter_empty_conv)
    have "map (\<lambda>(i, r0). (i, remediate_row ?t sel ed (i, r0))) (rows ?t) = rows ?t"
      using none by (intro map_idI) (auto simp: remediate_row_def)
    moreover have "filter (\<lambda>(i, r0). ?P (i, r0) \<and> passes_gate (edit_row (editor_disabled ?t) ed i r0)) (rows ?t) = []"
      using none by (auto simp: filter_empty_conv)
    ultimately show ?thesis
      using True
      by (simp add: apply_click_def edited_data_closed [OF assms(2,3)] and_then_Inr)
  next
    case False
    then show ?thesis
      using ac
      by (simp add: apply_click_def edited_data_closed [OF assms(2,3)] and_then_Inr)
  qed
qed

lemma tagged_disabled: "''Tagged'' \<in> set (cols t) \<Longrightarrow> ''Tagged'' \<in> set (editor_disabled t)"
  by (simp add: editor_disabled_def disabled_columns_def)

lemma edit_row_disabled: "c \<in> set D \<Longrightarrow> edit_row D ed i r c = r c"
  by (simp add: edit_row_def split: option.splits)

lemma shown_untagged: "shown_in_editor t sel (i, r) \<Longrightarrow> r ''Tagged'' = Some (Str ''No'')"
  by (simp add: shown_in_editor_def)

lemma written_row_tagged:
  "r ''Tagged'' = Some (Str ''No'') \<Longrightarrow>
     written_row r ''Tagged'' = Some (Str (if passes_gate r then ''Yes'' else ''No''))"
  by (simp add: written_row_def)

lemma written_row_other: "c \<noteq> ''Tagged'' \<Longrightarrow> written_row r c = r c"
  by (simp add: written_row_def)

lemma dom_written_row: "''Tagged'' \<in> dom r \<Longrightarrow> dom (written_row r) = dom r"
  by (auto simp: written_row_def)

lemma remediate_row_tagged:
  assumes "''Tagged'' \<in> set (cols t)"
  shows "remediate_row t sel ed (i, r0) ''Tagged'' =
           (if shown_in_editor t sel (i, r0)
            then Some (Str (if passes_gate (edit_row (editor_disabled t) ed i r0) then ''Yes'' else ''No''))
            else r0 ''Tagged'')"
  using assms
  by (simp add: remediate_row_def written_row_tagged edit_row_disabled tagged_disabled shown_untagged)

lemma remediate_only_tags:
  assumes "''Tagged'' \<in> set (cols t)"
  shows "(remediate_row t sel ed (i, r0) ''Tagged'' = Some (Str ''No'') \<longrightarrow>
            r0 ''Tagged'' = Some (Str ''No''))
         \<and> (r0 ''Tagged'' = Some (Str ''Yes'') \<longrightarrow>
            remediate_row t sel ed (i, r0) ''Tagged'' = Some (Str ''Yes''))"
proof (cases "shown_in_editor t sel (i, r0)")
  case True
  from shown_untagged [OF this] show ?thesis by simp
next
  case False
  then show ?thesis by (simp add: remediate_row_def)
qed

lemma dom_remediate_row:
  assumes "''Tagged'' \<in> set (cols t)" and "dom r0 = set (cols t)"
  shows "dom (remediate_row t sel ed (i, r0)) = set (cols t)"
  using assms by (simp add: remediate_row_def dom_written_row dom_edit_row)

lemma fst_comp_row: "fst \<circ> (\<lambda>(i, r0). (i, g i r0)) = fst"
  by (auto simp: fun_eq_iff)

lemma dom_rows_map:
  "list_all (\<lambda>(i, r0). dom r0 = D) rs \<Longrightarrow> (\<And>i r0. dom r0 = D \<Longrightarrow> dom (g (i, r0)) = D) \<Longrightarrow>
     list_all (\<lambda>(i, r0). dom r0 = D) (map (\<lambda>(i, r0). (i, g (i, r0))) rs)"
  by (induction rs) (simp_all split: prod.splits)

lemma count_le_filter:
  "(\<And>x. x \<in> set xs \<Longrightarrow> P (f x) \<Longrightarrow> Q x) \<Longrightarrow>
     length (filter P (map f xs)) \<le> length (filter Q xs)"
proof (induction xs)
  case Nil
  then show ?case by simp
next
  case (Cons a xs)
  then show ?case by (auto simp: le_SucI)
qed

lemma click_step:
  assumes "wf_table (df_edited s)"
    and "''Service'' \<in> set (cols (df_edited s))" and "''Tagged'' \<in> set (cols (df_edited s))"
  shows "\<exists>s' n. apply_click s sel ed = Inr (s', n)
           \<and> original_df s' = original_df s
           \<and> cols (df_edited s') = cols (df_edited s)
           \<and> map fst (rows (df_edited s')) = map fst (rows (df_edited s))
           \<and> wf_table (df_edited s')
           \<and> only_tags (df_edited s) (df_edited s')
           \<and> count_untagged (df_edited s') \<le> count_untagged (df_edited s)"
proof -
  let ?t = "df_edited s"
  let ?rows' = "map (\<lambda>(i, r0). (i, remediate_row ?t sel ed (i, r0))) (rows ?t)"
  have fst': "map fst ?rows' = map fst (rows ?t)"
    by (simp add: comp_def case_prod_unfold)
  have doms: "list_all (\<lambda>(i, r0). dom r0 = set (cols ?t)) (rows ?t)"
    using assms(1) by (simp add: wf_table_def)
  have doms': "list_all (\<lambda>(i, r0). dom r0 = set (cols ?t)) ?rows'"
    using doms dom_remediate_row [OF assms(3), of _ sel ed]
    by (rule dom_rows_map)
  have wf': "wf_table (?t\<lparr>rows := ?rows'\<rparr>)"
    using assms(1) doms' unfolding wf_table_def by (simp add: fst_comp_row)
  have ot: "only_tags ?t (?t\<lparr>rows := ?rows'\<rparr>)"
    unfolding only_tags_def
    using remediate_only_tags [OF assms(3), of sel ed]
    by (simp add: list_all2_map2 list_all2_same split: prod.splits)
  have cnt: "count_untagged (?t\<lparr>rows := ?rows'\<rparr>) \<le> count_untagged ?t"
  proof -
    have "length (filter (\<lambda>(i, r). r ''Tagged'' = Some (Str ''No'')) ?rows')
        \<le> length (filter (\<lambda>(i, r). r ''Tagged'' = Some (Str ''No'')) (rows ?t))"
    proof (rule count_le_filter)
      fix x
      assume "case (case x of (i, r0) \<Rightarrow> (i, remediate_row ?t sel ed (i, r0))) of
                (i, r) \<Rightarrow> r ''Tagged'' = Some (Str ''No'')"
      then show "case x of (i, r) \<Rightarrow> r ''Tagged'' = Some (Str ''No'')"
        using remediate_only_tags [OF assms(3), of sel ed "fst x" "snd x"]
        by (simp add: case_prod_unfold)
    qed
    then show ?thesis by (simp add: count_untagged_def)
  qed
  show ?thesis
    using apply_click_closed [OF assms, of sel ed] wf' ot cnt
    by (simp add: fst_comp_row)
qed

lemma map_of_rows:
  "distinct (map fst rs) \<Longrightarrow> (i, r0) \<in> set rs \<Longrightarrow>
     map_of (map (\<lambda>(i, r). (i, g i r)) rs) i = Some (g i r0)"
  using map_of_edited [of rs i r0 g "\<lambda>_. True"] by simp

lemma click_batch:
  assumes "wf_table (df_edited s)"
    and "''Service'' \<in> set (cols (df_edited s))" and "''Tagged'' \<in> set (cols (df_edited s))"
    and "edited_data (df_edited s) sel ed = Inr (Some batch)"
  shows "\<exists>s' n. apply_click s sel ed = Inr (s', n)
           \<and> n = length (filter (\<lambda>(i, r). passes_gate r) (rows batch))
           \<and> (\<forall>(idx, r) \<in> set (rows batch).
                 r ''Tagged'' = Some (Str ''No'') \<and> dom r = set (cols (df_edited s))
                 \<and> row_at (df_edited s') idx = Some (written_row r))
           \<and> n = length (filter (\<lambda>(i, r0). r0 ''Tagged'' = Some (Str ''No'')
                         \<and> (\<exists>r1. row_at (df_edited s') i = Some r1
                               \<and> r1 ''Tagged'' = Some (Str ''Yes'')))
                      (rows (df_edited s)))"
proof -
  let ?t = "df_edited s"
  let ?P = "shown_in_editor ?t sel"
  let ?D = "editor_disabled ?t"
  let ?rows' = "map (\<lambda>(i, r0). (i, remediate_row ?t sel ed (i, r0))) (rows ?t)"
  let ?s' = "s\<lparr>df_edited := ?t\<lparr>rows := ?rows'\<rparr>\<rparr>"
  let ?n = "length (filter (\<lambda>(i, r0). ?P (i, r0) \<and> passes_gate (edit_row ?D ed i r0)) (rows ?t))"
  have d: "distinct (map fst (rows ?t))"
    and doms: "list_all (\<lambda>(i, r0). dom r0 = set (cols ?t)) (rows ?t)"
    using assms(1) by (simp_all add: wf_table_def)
  have click: "apply_click s sel ed = Inr (?s', ?n)"
    by (rule apply_click_closed [OF assms(1-3)])
  have batch: "rows batch = map (\<lambda>(i, r). (i, edit_row ?D ed i r)) (filter ?P (rows ?t))"
    using assms(4) unfolding edited_data_closed [OF assms(2,3)]
    by (auto split: if_splits)
  have at: "row_at (df_edited ?s') i = Some (remediate_row ?t sel ed (i, r0))"
    if "(i, r0) \<in> set (rows ?t)" for i r0
    using map_of_rows [OF d that, of "\<lambda>i r0. remediate_row ?t sel ed (i, r0)"]
    by (simp add: row_at_def)
  have n1: "?n = length (filter (\<lambda>(i, r). passes_gate r) (rows batch))"
    by (simp add: batch filter_map comp_def case_prod_unfold conj_commute)
  have rows_ok: "r ''Tagged'' = Some (Str ''No'') \<and> dom r = set (cols ?t)
        \<and> row_at (df_edited ?s') idx = Some (written_row r)"
    if "(idx, r) \<in> set (rows batch)" for idx r
  proof -
    from that obtain r0 where m: "(idx, r0) \<in> set (rows ?t)" and p: "?P (idx, r0)"
      and r: "r = edit_row ?D ed idx r0"
      by (auto simp: batch)
    from doms have "\<forall>x\<in>set (rows ?t). case x of (i, r0) \<Rightarrow> dom r0 = set (cols ?t)"
      by (simp add: list_all_iff)
    from bspec [OF this m] have "dom r0 = set (cols ?t)"
      by simp
    then show ?thesis
      using at [OF m] p shown_untagged [OF p]
      by (simp add: r dom_edit_row edit_row_disabled tagged_disabled [OF assms(3)] remediate_row_def)
  qed
  have n2: "?n = length (filter (\<lambda>(i, r0). r0 ''Tagged'' = Some (Str ''No'')
                         \<and> (\<exists>r1. row_at (df_edited ?s') i = Some r1
                               \<and> r1 ''Tagged'' = Some (Str ''Yes'')))
                      (rows ?t))"
  proof -
    have "(?P (i, r0) \<and> passes_gate (edit_row ?D ed i r0)) =
          (r0 ''Tagged'' = Some (Str ''No'')
             \<and> (\<exists>r1. row_at (df_edited ?s') i = Some r1 \<and> r1 ''Tagged'' = Some (Str ''Yes'')))"
      if "(i, r0) \<in> set (rows ?t)" for i r0
      using at [OF that] shown_untagged [of ?t sel i r0]
      by (auto simp: remediate_row_tagged [OF assms(3)])
    then have "filter (\<lambda>(i, r0). ?P (i, r0) \<and> passes_gate (edit_row ?D ed i r0)) (rows ?t)
        = filter (\<lambda>(i, r0). r0 ''Tagged'' = Some (Str ''No'')
                         \<and> (\<exists>r1. row_at (df_edited ?s') i = Some r1
                               \<and> r1 ''Tagged'' = Some (Str ''Yes''))) (rows ?t)"
      by (intro filter_cong) auto
    then show ?thesis by simp
  qed
  show ?thesis
    using click n1 n2 rows_ok by blast
qed

lemma has_value_present: "c \<in> dom r \<Longrightarrow> has_value r c = notna (r c)"
  by (auto simp: has_value_def)

lemma has_value_absent: "c \<notin> dom r \<Longrightarrow> has_value r c"
  by (simp add: has_value_def domIff)

text \<open>
  C2. In a session whose edited snapshot has the columns \<open>Service\<close>, \<open>Tagged\<close>,
  \<open>Department\<close>, \<open>Project\<close> and \<open>Owner\<close>, one click on the apply button writes every
  column of every row of the editor's frame into the edited snapshot and then sets the
  row's \<open>Tagged\<close> to \<open>Yes\<close> exactly when its \<open>Department\<close>, \<open>Project\<close> and \<open>Owner\<close> are all
  non-missing; otherwise the row keeps \<open>Tagged = No\<close>. No other field enters the decision.
  The reported count is the number of rows of the snapshot that went from \<open>No\<close> to \<open>Yes\<close>.
\<close>

theorem auto_tag_rule:
  assumes "wf_table (df_edited s)"
    and "''Service'' \<in> set (cols (df_edited s))" and "''Tagged'' \<in> set (cols (df_edited s))"
    and "''Department'' \<in> set (cols (df_edited s))" and "''Project'' \<in> set (cols (df_edited s))"
    and "''Owner'' \<in> set (cols (df_edited s))"
    and "edited_data (df_edited s) sel ed = Inr (Some batch)"
  shows "\<exists>s' n. apply_click s sel ed = Inr (s', n)
           \<and> (\<forall>(idx, r) \<in> set (rows batch).
                 \<exists>r'. row_at (df_edited s') idx = Some r'
                    \<and> (\<forall>c. c \<noteq> ''Tagged'' \<longrightarrow> r' c = r c)
                    \<and> (r' ''Tagged'' = Some (Str ''Yes'') \<longleftrightarrow> complete_tags r')
                    \<and> (\<not> complete_tags r' \<longrightarrow> r' ''Tagged'' = Some (Str ''No'')))
           \<and> n = length (filter (\<lambda>(i, r0). r0 ''Tagged'' = Some (Str ''No'')
                         \<and> (\<exists>r1. row_at (df_edited s') i = Some r1
                               \<and> r1 ''Tagged'' = Some (Str ''Yes'')))
                      (rows (df_edited s)))"
proof -
  from click_batch [OF assms(1-3,7)] obtain s' n where
    click: "apply_click s sel ed = Inr (s', n)"
    and rows_ok: "\<forall>(idx, r) \<in> set (rows batch).
                 r ''Tagged'' = Some (Str ''No'') \<and> dom r = set (cols (df_edited s))
                 \<and> row_at (df_edited s') idx = Some (written_row r)"
    and n: "n = length (filter (\<lambda>(i, r0). r0 ''Tagged'' = Some (Str ''No'')
                         \<and> (\<exists>r1. row_at (df_edited s') i = Some r1
                               \<and> r1 ''Tagged'' = Some (Str ''Yes'')))
                      (rows (df_edited s)))"
    by blast
  have "\<exists>r'. row_at (df_edited s') idx = Some r'
          \<and> (\<forall>c. c \<noteq> ''Tagged'' \<longrightarrow> r' c = r c)
          \<and> (r' ''Tagged'' = Some (Str ''Yes'') \<longleftrightarrow> complete_tags r')
          \<and> (\<not> complete_tags r' \<longrightarrow> r' ''Tagged'' = Some (Str ''No''))"
    if m: "(idx, r) \<in> set (rows batch)" for idx r
  proof -
    from bspec [OF rows_ok m] have no: "r ''Tagged'' = Some (Str ''No'')"
      and d: "dom r = set (cols (df_edited s))"
      and at: "row_at (df_edited s') idx = Some (written_row r)"
      by simp_all
    have g: "passes_gate r = complete_tags r"
      using assms(4-6) d by (simp add: passes_gate_def complete_tags_def has_value_present)
    have c: "complete_tags (written_row r) = complete_tags r"
      by (simp add: complete_tags_def written_row_other)
    show ?thesis
      using at no by (simp add: written_row_other written_row_tagged g c)
  qed
  then have all_rows: "\<forall>(idx, r) \<in> set (rows batch).
                 \<exists>r'. row_at (df_edited s') idx = Some r'
                    \<and> (\<forall>c. c \<noteq> ''Tagged'' \<longrightarrow> r' c = r c)
                    \<and> (r' ''Tagged'' = Some (Str ''Yes'') \<longleftrightarrow> complete_tags r')
                    \<and> (\<not> complete_tags r' \<longrightarrow> r' ''Tagged'' = Some (Str ''No''))"
    by (intro ballI) (simp only: split_paired_all prod.case)
  show ?thesis
    by (intro exI conjI) (rule click, rule all_rows, rule n)
qed

text \<open>
  C10. Each of \<open>Department\<close>, \<open>Project\<close>, \<open>Owner\<close> that is not a column of the frame counts
  as filled: a row of the editor's frame is marked \<open>Yes\<close> exactly when those of the three
  that are columns are non-missing. When none of the three is a column, every row of the
  editor's frame is marked \<open>Yes\<close> and the reported count is the number of those rows.
\<close>

theorem absent_gate_columns:
  assumes "wf_table (df_edited s)"
    and "''Service'' \<in> set (cols (df_edited s))" and "''Tagged'' \<in> set (cols (df_edited s))"
    and "edited_data (df_edited s) sel ed = Inr (Some batch)"
  shows "\<exists>s' n. apply_click s sel ed = Inr (s', n)
           \<and> (\<forall>(idx, r) \<in> set (rows batch).
                 \<exists>r'. row_at (df_edited s') idx = Some r'
                    \<and> (r' ''Tagged'' = Some (Str ''Yes'') \<longleftrightarrow>
                         list_all (\<lambda>c. c \<notin> set (cols (df_edited s)) \<or> notna (r' c))
                           [''Department'', ''Project'', ''Owner'']))
           \<and> (''Department'' \<notin> set (cols (df_edited s)) \<and> ''Project'' \<notin> set (cols (df_edited s))
                \<and> ''Owner'' \<notin> set (cols (df_edited s)) \<longrightarrow>
                (\<forall>(idx, r) \<in> set (rows batch).
                   \<exists>r'. row_at (df_edited s') idx = Some r' \<and> r' ''Tagged'' = Some (Str ''Yes''))
                \<and> n = length (rows batch))"
proof -
  from click_batch [OF assms] obtain s' n where
    click: "apply_click s sel ed = Inr (s', n)"
    and n: "n = length (filter (\<lambda>(i, r). passes_gate r) (rows batch))"
    and rows_ok: "\<forall>(idx, r) \<in> set (rows batch).
                 r ''Tagged'' = Some (Str ''No'') \<and> dom r = set (cols (df_edited s))
                 \<and> row_at (df_edited s') idx = Some (written_row r)"
    by blast
  have gate: "passes_gate r = list_all (\<lambda>c. c \<notin> set (cols (df_edited s)) \<or> notna (written_row r c))
                           [''Department'', ''Project'', ''Owner'']"
    if "dom r = set (cols (df_edited s))" for r
  proof -
    have "has_value r c = (c \<notin> set (cols (df_edited s)) \<or> notna (r c))" for c
    proof (cases "c \<in> dom r")
      case True
      then show ?thesis using that by (simp add: has_value_present del: domIff)
    next
      case False
      then show ?thesis using that by (simp add: has_value_absent del: domIff)
    qed
    then show ?thesis
      by (simp add: passes_gate_def written_row_other)
  qed
  have one: "\<exists>r'. row_at (df_edited s') idx = Some r'
          \<and> (r' ''Tagged'' = Some (Str ''Yes'') \<longleftrightarrow>
               list_all (\<lambda>c. c \<notin> set (cols (df_edited s)) \<or> notna (r' c))
                 [''Department'', ''Project'', ''Owner''])"
    if m: "(idx, r) \<in> set (rows batch)" for idx r
  proof -
    from bspec [OF rows_ok m] have no: "r ''Tagged'' = Some (Str ''No'')"
      and d: "dom r = set (cols (df_edited s))"
      and at: "row_at (df_edited s') idx = Some (written_row r)"
      by simp_all
    show ?thesis
      using at no gate [OF d] by (simp add: written_row_tagged)
  qed
  have all: "(\<forall>(idx, r) \<in> set (rows batch).
                   \<exists>r'. row_at (df_edited s') idx = Some r' \<and> r' ''Tagged'' = Some (Str ''Yes''))
                \<and> n = length (rows batch)"
    if none: "''Department'' \<notin> set (cols (df_edited s))" "''Project'' \<notin> set (cols (df_edited s))"
       "''Owner'' \<notin> set (cols (df_edited s))"
  proof -
    have p: "passes_gate r" if "(idx, r) \<in> set (rows batch)" for idx r
    proof -
      from bspec [OF rows_ok that] have "dom r = set (cols (df_edited s))" by simp
      with none show ?thesis by (simp add: passes_gate_def has_value_absent)
    qed
    then have f: "filter (\<lambda>(i, r). passes_gate r) (rows batch) = rows batch"
      by (intro filter_True) auto
    have "\<exists>r'. row_at (df_edited s') idx = Some r' \<and> r' ''Tagged'' = Some (Str ''Yes'')"
      if m: "(idx, r) \<in> set (rows batch)" for idx r
      using bspec [OF rows_ok m] p [OF m] by (simp add: written_row_tagged)
    then have y: "\<forall>(idx, r) \<in> set (rows batch).
                   \<exists>r'. row_at (df_edited s') idx = Some r' \<and> r' ''Tagged'' = Some (Str ''Yes'')"
      by (intro ballI) (simp only: split_paired_all prod.case)
    show ?thesis
      using y n by (simp only: f)
  qed
  have one_all: "\<forall>(idx, r) \<in> set (rows batch).
                 \<exists>r'. row_at (df_edited s') idx = Some r'
                    \<and> (r' ''Tagged'' = Some (Str ''Yes'') \<longleftrightarrow>
                         list_all (\<lambda>c. c \<notin> set (cols (df_edited s)) \<or> notna (r' c))
                           [''Department'', ''Project'', ''Owner''])"
    using one by (intro ballI) (simp only: split_paired_all prod.case)
  have imp: "''Department'' \<notin> set (cols (df_edited s)) \<and> ''Project'' \<notin> set (cols (df_edited s))
                \<and> ''Owner'' \<notin> set (cols (df_edited s)) \<longrightarrow>
                (\<forall>(idx, r) \<in> set (rows batch).
                   \<exists>r'. row_at (df_edited s') idx = Some r' \<and> r' ''Tagged'' = Some (Str ''Yes''))
                \<and> n = length (rows batch)"
    by (intro impI, elim conjE, rule all)
  show ?thesis
    by (intro exI conjI) (rule click, rule one_all, rule imp)
qed

lemmas session_defs = example_session_def example_edits_def example_batch_def
  plain_df_def plain_session_def no_edits_def plain_batch_def

lemma wf_example: "wf_table example_df" "wf_table plain_df"
  by (simp_all add: wf_table_def example_defs session_defs dom_map_of_conv_image_fst)

lemma shown_all_selected:
  "shown_in_editor t all_selected (i, r) = (r ''Tagged'' = Some (Str ''No''))"
  by (simp add: shown_in_editor_def satisfies_active all_selected_def)

lemma shown_all_selected_fun:
  "shown_in_editor t all_selected = (\<lambda>(i, r). r ''Tagged'' = Some (Str ''No''))"
  by (simp add: fun_eq_iff shown_all_selected)

lemma example_batch_shown:
  "edited_data example_df all_selected example_edits = Inr (Some example_batch)"
proof -
  have c: "''Service'' \<in> set (cols example_df)" "''Tagged'' \<in> set (cols example_df)"
    by (simp_all add: example_df_def frame_of_def)
  show ?thesis
    unfolding edited_data_closed [OF c] shown_all_selected_fun
    by (simp add: example_df_def frame_of_def example_batch_def example_edits_def
        editor_disabled_def disabled_columns_def edit_row_def fun_eq_iff)
qed

lemma plain_batch_shown:
  "edited_data plain_df all_selected no_edits = Inr (Some plain_batch)"
proof -
  have c: "''Service'' \<in> set (cols plain_df)" "''Tagged'' \<in> set (cols plain_df)"
    by (simp_all add: plain_df_def frame_of_def)
  show ?thesis
    unfolding edited_data_closed [OF c] shown_all_selected_fun
    by (simp add: plain_df_def frame_of_def plain_batch_def no_edits_def
        editor_disabled_def disabled_columns_def edit_row_def fun_eq_iff)
qed

theorem auto_tag_rule_witness:
  "\<exists>s' n. apply_click example_session all_selected example_edits = Inr (s', n)
           \<and> (\<forall>(idx, r) \<in> set (rows example_batch).
                 \<exists>r'. row_at (df_edited s') idx = Some r'
                    \<and> (\<forall>c. c \<noteq> ''Tagged'' \<longrightarrow> r' c = r c)
                    \<and> (r' ''Tagged'' = Some (Str ''Yes'') \<longleftrightarrow> complete_tags r')
                    \<and> (\<not> complete_tags r' \<longrightarrow> r' ''Tagged'' = Some (Str ''No'')))
           \<and> n = length (filter (\<lambda>(i, r0). r0 ''Tagged'' = Some (Str ''No'')
                         \<and> (\<exists>r1. row_at (df_edited s') i = Some r1
                               \<and> r1 ''Tagged'' = Some (Str ''Yes'')))
                      (rows (df_edited example_session)))"
proof -
  have e: "df_edited example_session = example_df"
    by (simp add: example_session_def)
  have c: "''Service'' \<in> set (cols example_df)" "''Tagged'' \<in> set (cols example_df)"
    "''Department'' \<in> set (cols example_df)" "''Project'' \<in> set (cols example_df)"
    "''Owner'' \<in> set (cols example_df)"
    by (simp_all add: example_defs)
  show ?thesis
    by (rule auto_tag_rule [of example_session all_selected example_edits example_batch])
       (simp_all only: e wf_example c example_batch_shown)
qed

theorem absent_gate_columns_witness:
  "\<exists>s' n. apply_click plain_session all_selected no_edits = Inr (s', n)
           \<and> (\<forall>(idx, r) \<in> set (rows plain_batch).
                 \<exists>r'. row_at (df_edited s') idx = Some r' \<and> r' ''Tagged'' = Some (Str ''Yes''))
           \<and> n = 1"
proof -
  have e: "df_edited plain_session = plain_df"
    by (simp add: plain_session_def)
  have c: "''Service'' \<in> set (cols plain_df)" "''Tagged'' \<in> set (cols plain_df)"
    and a: "''Department'' \<notin> set (cols plain_df)" "''Project'' \<notin> set (cols plain_df)"
      "''Owner'' \<notin> set (cols plain_df)"
    and l: "length (rows plain_batch) = 1"
    by (simp_all add: example_defs session_defs)
  have "wf_table (df_edited plain_session)"
    and "''Service'' \<in> set (cols (df_edited plain_session))"
    and "''Tagged'' \<in> set (cols (df_edited plain_session))"
    and "edited_data (df_edited plain_session) all_selected no_edits = Inr (Some plain_batch)"
    by (simp_all only: e wf_example c plain_batch_shown)
  from absent_gate_columns [OF this] obtain s' n where
    "apply_click plain_session all_selected no_edits = Inr (s', n)"
    and "''Department'' \<notin> set (cols (df_edited plain_session)) \<and> ''Project'' \<notin> set (cols (df_edited plain_session))
                \<and> ''Owner'' \<notin> set (cols (df_edited plain_session)) \<longrightarrow>
                (\<forall>(idx, r) \<in> set (rows plain_batch).
                   \<exists>r'. row_at (df_edited s') idx = Some r' \<and> r' ''Tagged'' = Some (Str ''Yes''))
                \<and> n = length (rows plain_batch)"
    by blast
  then show ?thesis
    unfolding e l using a by (intro exI [of _ s'] exI [of _ n]) simp
qed

lemma only_tags_refl: "only_tags t t"
  by (simp add: only_tags_def list_all2_same split: prod.splits)

lemma only_tags_trans:
  assumes "only_tags a b" and "only_tags b c"
  shows "only_tags a c"
  unfolding only_tags_def
  by (rule list_all2_trans [OF _ assms(1) [unfolded only_tags_def] assms(2) [unfolded only_tags_def]])
     auto

lemma filter_count_rel:
  "list_all2 R xs ys \<Longrightarrow> (\<And>x y. R x y \<Longrightarrow> Q y \<Longrightarrow> P x) \<Longrightarrow>
     length (filter Q ys) \<le> length (filter P xs)"
  by (induction rule: list_all2_induct) (auto simp: le_SucI)

lemma only_tags_count:
  assumes "only_tags a b"
  shows "count_untagged b \<le> count_untagged a"
  unfolding count_untagged_def
  by (rule filter_count_rel [OF assms [unfolded only_tags_def]]) auto

lemma clicks_run:
  assumes "wf_table (df_edited s)"
    and "''Service'' \<in> set (cols (df_edited s))" and "''Tagged'' \<in> set (cols (df_edited s))"
  shows "\<exists>s'. apply_clicks s steps = Inr s'
           \<and> original_df s' = original_df s
           \<and> cols (df_edited s') = cols (df_edited s)
           \<and> map fst (rows (df_edited s')) = map fst (rows (df_edited s))
           \<and> wf_table (df_edited s')
           \<and> only_tags (df_edited s) (df_edited s')"
  using assms
proof (induction steps arbitrary: s)
  case Nil
  then show ?case by (simp add: only_tags_refl)
next
  case (Cons step steps)
  obtain sel ed where step: "step = (sel, ed)" by (cases step)
  from click_step [OF Cons.prems, of sel ed] obtain s1 n where
    c: "apply_click s sel ed = Inr (s1, n)"
    and o: "original_df s1 = original_df s"
    and k: "cols (df_edited s1) = cols (df_edited s)"
    and i: "map fst (rows (df_edited s1)) = map fst (rows (df_edited s))"
    and w: "wf_table (df_edited s1)"
    and t: "only_tags (df_edited s) (df_edited s1)"
    by blast
  have "''Service'' \<in> set (cols (df_edited s1))" and "''Tagged'' \<in> set (cols (df_edited s1))"
    using Cons.prems(2,3) by (simp_all add: k)
  from Cons.IH [OF w this] obtain s' where
    r: "apply_clicks s1 steps = Inr s'"
    and o': "original_df s' = original_df s1"
    and k': "cols (df_edited s') = cols (df_edited s1)"
    and i': "map fst (rows (df_edited s')) = map fst (rows (df_edited s1))"
    and w': "wf_table (df_edited s')"
    and t': "only_tags (df_edited s1) (df_edited s')"
    by blast
  show ?case
    using r o' k' i' w' only_tags_trans [OF t t']
    by (simp add: step c and_then_Inr o k i)
qed

lemma start_session_ok:
  assumes "start_session df = Some s0"
  shows "original_df s0 = df" and "df_edited s0 = df"
    and "''Service'' \<in> set (cols df)" and "''Tagged'' \<in> set (cols df)"
  using assms
  by (auto simp: start_session_def missing_columns_def required_columns_def filter_empty_conv
      split: if_splits)


text \<open>
  C6. In a session started from a loaded frame, take any sequence of clicks and any further
  sequence after it: the number of rows with \<open>Tagged = No\<close> after the further clicks is at
  most the number before them, no row has gone from \<open>Yes\<close> to another value, and no row
  has become \<open>No\<close>.
\<close>

theorem untagged_count_never_grows:
  assumes "wf_table df" and "start_session df = Some s0"
  shows "\<exists>s1 s2. apply_clicks s0 steps = Inr s1 \<and> apply_clicks s1 more_steps = Inr s2
           \<and> apply_clicks s0 (steps @ more_steps) = Inr s2
           \<and> count_untagged (df_edited s2) \<le> count_untagged (df_edited s1)
           \<and> only_tags (df_edited s1) (df_edited s2)"
proof -
  note s = start_session_ok [OF assms(2)]
  have "wf_table (df_edited s0)" and "''Service'' \<in> set (cols (df_edited s0))"
    and "''Tagged'' \<in> set (cols (df_edited s0))"
    using assms(1) s by simp_all
  from clicks_run [OF this, of steps] obtain s1 where
    r1: "apply_clicks s0 steps = Inr s1"
    and k: "cols (df_edited s1) = cols (df_edited s0)"
    and w: "wf_table (df_edited s1)"
    by blast
  have "''Service'' \<in> set (cols (df_edited s1))" and "''Tagged'' \<in> set (cols (df_edited s1))"
    using s by (simp_all add: k)
  from clicks_run [OF w this, of more_steps] obtain s2 where
    r2: "apply_clicks s1 more_steps = Inr s2"
    and t: "only_tags (df_edited s1) (df_edited s2)"
    by blast
  have app: "apply_clicks a (xs @ ys) = and_then (apply_clicks a xs) (\<lambda>b. apply_clicks b ys)"
    for a xs ys
    by (induction xs arbitrary: a) (auto simp: and_then_def split: sum.splits)
  show ?thesis
    using r1 r2 t only_tags_count [OF t] by (simp add: app and_then_Inr)
qed

lemma start_example: "start_session example_df = Some example_session"
  by (simp add: start_session_def missing_columns_def required_columns_def example_session_def
      example_df_def frame_of_def)


theorem untagged_count_never_grows_witness:
  "\<exists>s1 s2. apply_clicks example_session [(all_selected, example_edits)] = Inr s1
       \<and> apply_clicks s1 [(all_selected, no_edits)] = Inr s2
       \<and> apply_clicks example_session ([(all_selected, example_edits)] @ [(all_selected, no_edits)]) = Inr s2
       \<and> count_untagged (df_edited s2) \<le> count_untagged (df_edited s1)
       \<and> only_tags (df_edited s1) (df_edited s2)"
  by (rule untagged_count_never_grows [OF wf_example(1) start_example])

subsection \<open>Export and reload\<close>



































lemma typed_cell_cases:
  "typed_cell to_num h f = Missing
   \<or> (typed_cell to_num h f = Str (strip f) \<and> strip f \<noteq> [])
   \<or> (\<exists>x. typed_cell to_num h f = Num x)"
  by (simp add: typed_cell_def Let_def split: option.splits)












end
